theory Spec2Isabelle
  imports Main
begin

section \<open>The dispatch registry of BusinessLogicCentralService\<close>

text \<open>
  The service of \<^verbatim>\<open>src/lib/business-logic-central.service\<close> keeps, for every event
  name, an ordered list of instructions. \<^verbatim>\<open>addInstructionToEvent\<close> appends to a list,
  \<^verbatim>\<open>doEvent\<close> runs a list in order until an instruction returns true. The file holds
  the TypeScript source and an older compiled JavaScript build, whose firing method is
  called \<^verbatim>\<open>executeInstructionsForEvent\<close>.

  The constant \<^verbatim>\<open>debug\<close> is false in both, so the console output is dead code and has
  no counterpart here.
\<close>

subsection \<open>Data\<close>

text \<open>
  What a call can raise: the TypeError of the service's own statements, or whatever an
  instruction throws.
\<close>

datatype error = TypeError | Thrown string

text \<open>
  \<^verbatim>\<open>type BusinessLogicInstruction = (args?: Array<any>) => boolean\<close>. An instruction
  is a closure of the application. It is called with the current value of
  \<^verbatim>\<open>event.eventParameters\<close> (\<open>None\<close> when that is undefined; \<open>'a\<close> stands for
  \<^verbatim>\<open>any\<close>) in a state \<open>'w\<close> of the application, the world. What it does then is its
  reaction: it may call \<^verbatim>\<open>addInstructionToEvent\<close> on the service that runs it, any
  number of times, and go on according to how each of these calls completed; in the end
  it returns a boolean or throws (\<open>Inr\<close> or \<open>Inl\<close>), and leaves
  \<^verbatim>\<open>event.eventParameters\<close> and the world as the second and third argument of
  \<open>Done\<close> say. Arrays are modelled by their contents, so an instruction that pushes
  onto the array it was handed leaves a longer list.

  A reaction need not be finite: an instruction may register without end and never
  return, and it may register itself. An instruction that fires an event of the service
  that runs it is outside this model.
\<close>

codatatype ('a, 'w) reaction =
    Done "error + bool" "'a list option" 'w
  | Register "'a list option \<Rightarrow> 'w \<Rightarrow> ('a, 'w) reaction" string
      "error + unit \<Rightarrow> ('a, 'w) reaction"

type_synonym ('a, 'w) BusinessLogicInstruction = "'a list option \<Rightarrow> 'w \<Rightarrow> ('a, 'w) reaction"

text \<open>
  \<^verbatim>\<open>interface BusinessLogicEvent\<close>: \<^verbatim>\<open>eventName\<close> is required, the other two fields are
  optional (\<open>None\<close> is undefined).
\<close>

record ('a, 'w) BusinessLogicEvent =
  eventName :: string
  eventParameters :: "'a list option"
  eventInstructions :: "('a, 'w) BusinessLogicInstruction list option"

text \<open>
  The private field \<^verbatim>\<open>_businessLogicEvents: {[x: string]: BusinessLogicEvent}\<close> is a
  plain object used as a dictionary. The map below holds its own properties. The
  fields \<^verbatim>\<open>_name\<close> and \<^verbatim>\<open>_businessLogicEvents\<close> lose their underscore, and the method
  \<^verbatim>\<open>_initializeEvent\<close> below does too.
\<close>

type_synonym ('a, 'w) registry = "string \<rightharpoonup> ('a, 'w) BusinessLogicEvent"

record ('a, 'w) BusinessLogicCentralService =
  name :: string
  businessLogicEvents :: "('a, 'w) registry"

definition constructor :: "('a, 'w) BusinessLogicCentralService" where
  "constructor = \<lparr>name = ''BusinessLogicCentralService'', businessLogicEvents = Map.empty\<rparr>"

subsection \<open>Reading the registry object\<close>

text \<open>
  \<^verbatim>\<open>this._businessLogicEvents.hasOwnProperty(key)\<close> first looks the property
  \<^verbatim>\<open>hasOwnProperty\<close> up on the registry object itself and only then on its prototype.
  The registry object starts as \<^verbatim>\<open>{}\<close>, so the method is the inherited one until the
  object gets an own property of that name. \<^verbatim>\<open>_initializeEvent\<close> defines an own
  property for whatever event name it is given; once that name is \<^verbatim>\<open>hasOwnProperty\<close>,
  the lookup finds the stored registration, which is not callable, and the call raises
  a TypeError.
\<close>

definition hasOwnProperty :: "('a, 'w) registry \<Rightarrow> string \<Rightarrow> error + bool" where
  "hasOwnProperty obj key =
     (case obj ''hasOwnProperty'' of
        Some shadow \<Rightarrow> Inl TypeError
      | None \<Rightarrow> Inr (case obj key of None \<Rightarrow> False | Some v \<Rightarrow> True))"

text \<open>
  The older build reads \<^verbatim>\<open>this._businessLogicEvents[event]\<close> with the event object as
  the key. A property key that is an object is converted to a string; for an object
  literal of the shape of \<^verbatim>\<open>BusinessLogicEvent\<close> that string is the same for every event.
\<close>

definition toPropertyKey :: "('a, 'w) BusinessLogicEvent \<Rightarrow> string" where
  "toPropertyKey event = ''[object Object]''"

subsection \<open>Registration\<close>

text \<open>
  Methods return how they completed (\<open>Inl\<close> an exception, \<open>Inr\<close> the returned value)
  together with the service as they leave it.
\<close>

definition initializeEvent ::
  "string \<Rightarrow> ('a, 'w) BusinessLogicCentralService
     \<Rightarrow> (error + unit) \<times> ('a, 'w) BusinessLogicCentralService" where
  "initializeEvent eventName' this =
     (case hasOwnProperty (businessLogicEvents this) eventName' of
        Inl e \<Rightarrow> (Inl e, this)
      | Inr initialized \<Rightarrow>
          if initialized then (Inr (), this)
          else (Inr (),
                this\<lparr>businessLogicEvents := (businessLogicEvents this)
                  (eventName' \<mapsto>
                     \<lparr>eventName = eventName', eventParameters = None,
                      eventInstructions = Some []\<rparr>)\<rparr>))"

definition addInstructionToEvent ::
  "('a, 'w) BusinessLogicInstruction \<Rightarrow> string \<Rightarrow> ('a, 'w) BusinessLogicCentralService
     \<Rightarrow> (error + unit) \<times> ('a, 'w) BusinessLogicCentralService" where
  "addInstructionToEvent instruction eventName' this =
     (case hasOwnProperty (businessLogicEvents this) eventName' of
        Inl e \<Rightarrow> (Inl e, this)
      | Inr known \<Rightarrow>
          (case (if known then (Inr (), this) else initializeEvent eventName' this) of
             (Inl e, this1) \<Rightarrow> (Inl e, this1)
           | (Inr u, this1) \<Rightarrow>
               (case businessLogicEvents this1 eventName' of
                  None \<Rightarrow> (Inl TypeError, this1)
                | Some registration \<Rightarrow>
                    (case eventInstructions registration of
                       None \<Rightarrow> (Inl TypeError, this1)
                     | Some instructions \<Rightarrow>
                         (Inr (),
                          this1\<lparr>businessLogicEvents := (businessLogicEvents this1)
                            (eventName' \<mapsto> registration
                               \<lparr>eventInstructions := Some (instructions @ [instruction])\<rparr>)\<rparr>)))))"

subsection \<open>Calling an instruction\<close>

text \<open>
  What a reaction does to the service, and how it ends: the calls of
  \<^verbatim>\<open>addInstructionToEvent\<close> it makes are carried out one after the other, each on the
  service as the one before left it. \<open>None\<close> is an instruction that never returns.
\<close>

partial_function (option) perform ::
  "('a, 'w) reaction \<Rightarrow> ('a, 'w) BusinessLogicCentralService
     \<Rightarrow> ((error + bool) \<times> 'a list option \<times> 'w \<times> ('a, 'w) BusinessLogicCentralService) option"
  where
  "perform r this =
     (case r of
        Done how params w \<Rightarrow> Some (how, params, w, this)
      | Register instruction eventName' continue \<Rightarrow>
          (case addInstructionToEvent instruction eventName' this of
             (result, this') \<Rightarrow> perform (continue result) this'))"

text \<open>
  One call \<^verbatim>\<open>instruction(event.eventParameters)\<close> of line 255, written down: which
  instruction, called on which value, in which world and service, how it completed, and
  what it left behind.
\<close>

record ('a, 'w) invocation =
  callee :: "('a, 'w) BusinessLogicInstruction"
  arguments :: "'a list option"
  in_world :: 'w
  in_service :: "('a, 'w) BusinessLogicCentralService"
  outcome :: "error + bool"
  left_parameters :: "'a list option"
  left_world :: 'w
  left_service :: "('a, 'w) BusinessLogicCentralService"

definition invoke ::
  "('a, 'w) BusinessLogicInstruction \<Rightarrow> 'a list option \<Rightarrow> 'w
     \<Rightarrow> ('a, 'w) BusinessLogicCentralService \<Rightarrow> ('a, 'w) invocation option" where
  "invoke instruction params w this =
     (case perform (instruction params w) this of
        None \<Rightarrow> None
      | Some (how, params', w', this') \<Rightarrow>
          Some \<lparr>callee = instruction, arguments = params, in_world = w, in_service = this,
                outcome = how, left_parameters = params', left_world = w',
                left_service = this'\<rparr>)"

subsection \<open>Firing\<close>

text \<open>What a firing leaves behind.\<close>

record ('a, 'w) firing =
  completion :: "error + bool"
  invoked :: "('a, 'w) invocation list"
  world :: 'w
  service :: "('a, 'w) BusinessLogicCentralService"

text \<open>
  The local variable \<^verbatim>\<open>instructions\<close> of line 251 refers to the array stored in the
  registration of the fired name, not to a copy. No method removes a registration or
  gives it another array, so at every moment of the loop that array is the list the
  service holds under that name.
\<close>

definition instructions_at ::
  "('a, 'w) BusinessLogicCentralService \<Rightarrow> string
     \<Rightarrow> ('a, 'w) BusinessLogicInstruction list" where
  "instructions_at this key =
     (case businessLogicEvents this key of
        None \<Rightarrow> []
      | Some registration \<Rightarrow>
          (case eventInstructions registration of
             None \<Rightarrow> []
           | Some instructions \<Rightarrow> instructions))"

text \<open>
  The loop \<^verbatim>\<open>for (const instruction of instructions)\<close> of lines 252 to 262 from
  position \<open>i\<close> on. The iterator compares its position with the length the array has
  at that moment, so it also reaches instructions that were registered under the fired
  name while the loop ran, and it need not come to an end: \<open>None\<close> is a firing that
  never returns. An instruction that throws ends the firing with what it threw.
\<close>

partial_function (option) run_instructions ::
  "string \<Rightarrow> nat \<Rightarrow> 'a list option \<Rightarrow> 'w \<Rightarrow> ('a, 'w) BusinessLogicCentralService
     \<Rightarrow> ('a, 'w) invocation list \<Rightarrow> ('a, 'w) firing option" where
  "run_instructions key i params w this calls =
     (if i < length (instructions_at this key)
      then
        (case invoke (instructions_at this key ! i) params w this of
           None \<Rightarrow> None
         | Some call \<Rightarrow>
             (case outcome call of
                Inl e \<Rightarrow>
                  Some \<lparr>completion = Inl e, invoked = calls @ [call],
                        world = left_world call, service = left_service call\<rparr>
              | Inr applied \<Rightarrow>
                  if applied
                  then Some \<lparr>completion = Inr True, invoked = calls @ [call],
                             world = left_world call, service = left_service call\<rparr>
                  else run_instructions key (Suc i) (left_parameters call) (left_world call)
                         (left_service call) (calls @ [call])))
      else Some \<lparr>completion = Inr True, invoked = calls, world = w, service = this\<rparr>)"

definition doEvent ::
  "('a, 'w) BusinessLogicCentralService \<Rightarrow> ('a, 'w) BusinessLogicEvent \<Rightarrow> 'w
     \<Rightarrow> ('a, 'w) firing option" where
  "doEvent this event w =
     (case hasOwnProperty (businessLogicEvents this) (eventName event) of
        Inl e \<Rightarrow> Some \<lparr>completion = Inl e, invoked = [], world = w, service = this\<rparr>
      | Inr known \<Rightarrow>
          if \<not> known
          then Some \<lparr>completion = Inr False, invoked = [], world = w, service = this\<rparr>
          else
            (case businessLogicEvents this (eventName event) of
               None \<Rightarrow>
                 Some \<lparr>completion = Inl TypeError, invoked = [], world = w, service = this\<rparr>
             | Some registration \<Rightarrow>
                 (case eventInstructions registration of
                    None \<Rightarrow>
                      Some \<lparr>completion = Inl TypeError, invoked = [], world = w,
                            service = this\<rparr>
                  | Some instructions \<Rightarrow>
                      if length instructions = 0
                      then Some \<lparr>completion = Inr False, invoked = [], world = w,
                                 service = this\<rparr>
                      else run_instructions (eventName event) 0 (eventParameters event) w
                             this [])))"

text \<open>
  The firing method of the older compiled build. Its emptiness check reads the
  registration under \<open>toPropertyKey event\<close> instead of \<open>eventName event\<close>; a key the
  object does not have reads as undefined, whose \<^verbatim>\<open>eventInstructions\<close> is a TypeError.
  Its loop counts up to \<^verbatim>\<open>instructions.length\<close>, read anew in every round.
\<close>

definition executeInstructionsForEvent ::
  "('a, 'w) BusinessLogicCentralService \<Rightarrow> ('a, 'w) BusinessLogicEvent \<Rightarrow> 'w
     \<Rightarrow> ('a, 'w) firing option" where
  "executeInstructionsForEvent this event w =
     (case hasOwnProperty (businessLogicEvents this) (eventName event) of
        Inl e \<Rightarrow> Some \<lparr>completion = Inl e, invoked = [], world = w, service = this\<rparr>
      | Inr known \<Rightarrow>
          if \<not> known
          then Some \<lparr>completion = Inr False, invoked = [], world = w, service = this\<rparr>
          else
            (case businessLogicEvents this (toPropertyKey event) of
               None \<Rightarrow>
                 Some \<lparr>completion = Inl TypeError, invoked = [], world = w, service = this\<rparr>
             | Some checked \<Rightarrow>
                 (case eventInstructions checked of
                    None \<Rightarrow>
                      Some \<lparr>completion = Inl TypeError, invoked = [], world = w,
                            service = this\<rparr>
                  | Some checked_instructions \<Rightarrow>
                      if length checked_instructions = 0
                      then Some \<lparr>completion = Inr False, invoked = [], world = w,
                                 service = this\<rparr>
                      else
                        (case businessLogicEvents this (eventName event) of
                           None \<Rightarrow>
                             Some \<lparr>completion = Inl TypeError, invoked = [], world = w,
                                   service = this\<rparr>
                         | Some registration \<Rightarrow>
                             (case eventInstructions registration of
                                None \<Rightarrow>
                                  Some \<lparr>completion = Inl TypeError, invoked = [], world = w,
                                        service = this\<rparr>
                              | Some instructions \<Rightarrow>
                                  run_instructions (eventName event) 0
                                    (eventParameters event) w this [])))))"

subsection \<open>Vocabulary of the properties\<close>

text \<open>
  The descriptor a caller hands to a firing method: the object literal
  \<^verbatim>\<open>{eventName: n, eventParameters: params}\<close>.
\<close>

definition fire :: "string \<Rightarrow> 'a list option \<Rightarrow> ('a, 'w) BusinessLogicEvent" where
  "fire n params = \<lparr>eventName = n, eventParameters = params, eventInstructions = None\<rparr>"

text \<open>
  The shape every stored registration has: it sits under its own name and its
  instruction list is defined.
\<close>

definition registry_inv :: "('a, 'w) BusinessLogicCentralService \<Rightarrow> bool" where
  "registry_inv this =
     (\<forall>key registration. businessLogicEvents this key = Some registration \<longrightarrow>
        eventName registration = key \<and> eventInstructions registration \<noteq> None)"


text \<open>
  A log entry is as called when it says what the call it names really did: the
  instruction, applied to the logged argument in the logged world and carried out on
  the logged service, completed and left behind what the entry says.
\<close>

definition as_called :: "('a, 'w) invocation \<Rightarrow> bool" where
  "as_called c =
     (perform (callee c (arguments c) (in_world c)) (in_service c)
        = Some (outcome c, left_parameters c, left_world c, left_service c))"

text \<open>
  A log is linked from \<open>(p, w, s)\<close> to \<open>(p', w', s')\<close> when its first call starts on the
  parameters \<open>p\<close>, the world \<open>w\<close> and the service \<open>s\<close>, every later call starts on
  what the call before it left, and the last call leaves \<open>(p', w', s')\<close>.
\<close>

fun linked ::
  "'a list option \<Rightarrow> 'w \<Rightarrow> ('a, 'w) BusinessLogicCentralService
     \<Rightarrow> ('a, 'w) invocation list
     \<Rightarrow> 'a list option \<Rightarrow> 'w \<Rightarrow> ('a, 'w) BusinessLogicCentralService \<Rightarrow> bool" where
  "linked p w s [] p' w' s' = (p = p' \<and> w = w' \<and> s = s')"
| "linked p w s (c # cs) p' w' s' =
     (arguments c = p \<and> in_world c = w \<and> in_service c = s
      \<and> linked (left_parameters c) (left_world c) (left_service c) cs p' w' s')"

text \<open>
  A registration has grown into another when it kept its name and parameters and its
  instruction list only got longer at the end; a service has grown into another when
  every registration of the first has grown into the registration under the same name
  of the second.
\<close>

definition registration_grows ::
  "('a, 'w) BusinessLogicEvent \<Rightarrow> ('a, 'w) BusinessLogicEvent \<Rightarrow> bool" where
  "registration_grows r r' =
     (eventName r' = eventName r \<and> eventParameters r' = eventParameters r
      \<and> (case eventInstructions r of
            None \<Rightarrow> eventInstructions r' = None
          | Some instructions \<Rightarrow>
              (\<exists>more. eventInstructions r' = Some (instructions @ more))))"

definition registry_grows ::
  "('a, 'w) BusinessLogicCentralService \<Rightarrow> ('a, 'w) BusinessLogicCentralService \<Rightarrow> bool" where
  "registry_grows s s' =
     (name s' = name s
      \<and> (\<forall>key. case businessLogicEvents s key of
                  None \<Rightarrow> True
                | Some r \<Rightarrow>
                    (\<exists>r'. businessLogicEvents s' key = Some r' \<and> registration_grows r r')))"


text \<open>
  An instruction keeps to itself when, whatever it is called on, it returns a boolean
  without calling back into the service; it may still change the world and the
  parameters.
\<close>

definition keeps_to_itself :: "('a, 'w) BusinessLogicInstruction \<Rightarrow> bool" where
  "keeps_to_itself instruction =
     (\<forall>p w. \<exists>applied p' w'. instruction p w = Done (Inr applied) p' w')"

text \<open>
  The instruction made of a function that only reads its argument, changes the world
  and returns a boolean.
\<close>

definition plain ::
  "('a list option \<Rightarrow> 'w \<Rightarrow> bool \<times> 'w) \<Rightarrow> ('a, 'w) BusinessLogicInstruction" where
  "plain g params w = (case g params w of (applied, w') \<Rightarrow> Done (Inr applied) params w')"


text \<open>
  An instruction that registers itself under \<open>n\<close> and returns false, as
  \<^verbatim>\<open>function again() { service.addInstructionToEvent(again, n); return false; }\<close>
  does.
\<close>

primcorec again :: "string \<Rightarrow> ('a, 'w) BusinessLogicInstruction" where
  "again n args w = Register (\<lambda>p v. again n p v) n (\<lambda>r. Done (Inr False) args w)"

text \<open>
  Sample instructions for concrete runs. Their world is a log: each of them appends
  its tag and the argument it was called on. \<open>declines\<close> returns false, \<open>applies\<close>
  returns true, \<open>pushes x\<close> appends \<open>x\<close> to the array it was handed and returns false,
  \<open>registers instruction n\<close> registers \<open>instruction\<close> under \<open>n\<close> and returns true.
\<close>

definition declines ::
  "string \<Rightarrow> (nat, (string \<times> nat list option) list) BusinessLogicInstruction" where
  "declines tag args w = Done (Inr False) args (w @ [(tag, args)])"

definition applies ::
  "string \<Rightarrow> (nat, (string \<times> nat list option) list) BusinessLogicInstruction" where
  "applies tag args w = Done (Inr True) args (w @ [(tag, args)])"

definition pushes ::
  "nat \<Rightarrow> string \<Rightarrow> (nat, (string \<times> nat list option) list) BusinessLogicInstruction" where
  "pushes x tag args w =
     Done (Inr False) (map_option (\<lambda>xs. xs @ [x]) args) (w @ [(tag, args)])"


section \<open>Calling an instruction\<close>

lemma perform_Done: "perform (Done how params w) this = Some (how, params, w, this)"
  by (subst perform.simps) simp

lemma perform_Register:
  "perform (Register instruction n continue) this =
     perform (continue (fst (addInstructionToEvent instruction n this)))
       (snd (addInstructionToEvent instruction n this))"
  by (subst perform.simps) (simp split: prod.splits)

lemma invoke_Some:
  assumes "invoke instruction p w s = Some call"
  shows "callee call = instruction" and "arguments call = p" and "in_world call = w"
    and "in_service call = s"
    and "perform (instruction p w) s
           = Some (outcome call, left_parameters call, left_world call, left_service call)"
  using assms by (auto simp add: invoke_def split: option.splits)

lemma as_called_invoke: "invoke instruction p w s = Some call \<Longrightarrow> as_called call"
  by (simp add: as_called_def invoke_Some)

text \<open>
  Whatever every call of \<^verbatim>\<open>addInstructionToEvent\<close> keeps, a reaction keeps too.
\<close>

lemma perform_preserves_result:
  assumes step: "\<And>instruction n s. P s \<Longrightarrow> P (snd (addInstructionToEvent instruction n s))"
    and performed: "perform r this = Some res"
    and start: "P this"
  shows "P (snd (snd (snd res)))"
  using start
proof (induction rule: perform.raw_induct [OF _ performed])
  case (1 perform r this res)
  show ?case
  proof (cases r)
    case (Done how params w)
    with 1(2,3) show ?thesis by auto
  next
    case (Register instruction n continue)
    with 1(2) have "perform (continue (fst (addInstructionToEvent instruction n this)))
        (snd (addInstructionToEvent instruction n this)) = Some res"
      by (simp split: prod.splits)
    moreover have "P (snd (addInstructionToEvent instruction n this))"
      using "1.prems" by (rule step)
    ultimately show ?thesis by (rule 1(1))
  qed
qed

lemma perform_preserves:
  assumes step: "\<And>instruction n s. P s \<Longrightarrow> P (snd (addInstructionToEvent instruction n s))"
    and performed: "perform r this = Some (how, p', w', this')"
    and start: "P this"
  shows "P this'"
  using perform_preserves_result [of P, OF step performed start] by simp

lemma invoke_preserves:
  assumes step: "\<And>instruction n s. P s \<Longrightarrow> P (snd (addInstructionToEvent instruction n s))"
    and "invoke instruction p w s = Some call" and "P s"
  shows "P (left_service call)"
  using step invoke_Some(5) [OF assms(2)] assms(3) by (rule perform_preserves)

lemma perform_keeps_to_itself:
  "keeps_to_itself instruction \<Longrightarrow>
     \<exists>applied p' w'. perform (instruction p w) this = Some (Inr applied, p', w', this)"
proof -
  assume "keeps_to_itself instruction"
  then obtain applied p' w' where "instruction p w = Done (Inr applied) p' w'"
    unfolding keeps_to_itself_def by blast
  then show ?thesis by (simp add: perform_Done)
qed


lemma linked_snoc:
  "linked p w s (cs @ [c]) p' w' s' \<longleftrightarrow>
     linked p w s cs (arguments c) (in_world c) (in_service c)
     \<and> left_parameters c = p' \<and> left_world c = w' \<and> left_service c = s'"
  by (induction cs arbitrary: p w s) auto

lemma linked_same_parameters:
  "linked p w s cs p' w' s' \<Longrightarrow> \<forall>c \<in> set cs. left_parameters c = arguments c
     \<Longrightarrow> \<forall>c \<in> set cs. arguments c = p"
  by (induction cs arbitrary: p w s) auto

section \<open>The own-property check\<close>

lemma hasOwnProperty_inherited:
  "obj ''hasOwnProperty'' = None \<Longrightarrow> hasOwnProperty obj key = Inr (obj key \<noteq> None)"
  by (simp add: hasOwnProperty_def split: option.splits)

lemma hasOwnProperty_shadowed:
  "obj ''hasOwnProperty'' = Some shadow \<Longrightarrow> hasOwnProperty obj key = Inl TypeError"
  by (simp add: hasOwnProperty_def)

lemma hasOwnProperty_found:
  "hasOwnProperty obj key = Inr True \<longleftrightarrow> obj ''hasOwnProperty'' = None \<and> obj key \<noteq> None"
  by (auto simp add: hasOwnProperty_def split: option.splits)

text \<open>
  Once an event has been registered under the name \<^verbatim>\<open>hasOwnProperty\<close>, every later
  call of either public method raises, whatever its arguments, and changes nothing.
\<close>

lemma shadowed_addInstructionToEvent:
  "businessLogicEvents this ''hasOwnProperty'' = Some shadow
     \<Longrightarrow> addInstructionToEvent instruction n this = (Inl TypeError, this)"
  by (simp add: addInstructionToEvent_def hasOwnProperty_shadowed)

lemma shadowed_doEvent:
  "businessLogicEvents this ''hasOwnProperty'' = Some shadow
     \<Longrightarrow> doEvent this event w
          = Some \<lparr>completion = Inl TypeError, invoked = [], world = w, service = this\<rparr>"
  by (simp add: doEvent_def hasOwnProperty_shadowed)

section \<open>Registration while the inherited check is in place\<close>

lemma addInstructionToEvent_first:
  "businessLogicEvents this ''hasOwnProperty'' = None
     \<Longrightarrow> businessLogicEvents this n = None
     \<Longrightarrow> addInstructionToEvent instruction n this =
          (Inr (), this\<lparr>businessLogicEvents := (businessLogicEvents this)
             (n \<mapsto> \<lparr>eventName = n, eventParameters = None,
                    eventInstructions = Some [instruction]\<rparr>)\<rparr>)"
  by (simp add: addInstructionToEvent_def initializeEvent_def hasOwnProperty_inherited)

lemma addInstructionToEvent_again:
  "businessLogicEvents this ''hasOwnProperty'' = None
     \<Longrightarrow> businessLogicEvents this n = Some registration
     \<Longrightarrow> eventInstructions registration = Some instructions
     \<Longrightarrow> addInstructionToEvent instruction n this =
          (Inr (), this\<lparr>businessLogicEvents := (businessLogicEvents this)
             (n \<mapsto> registration\<lparr>eventInstructions := Some (instructions @ [instruction])\<rparr>)\<rparr>)"
  by (simp add: addInstructionToEvent_def initializeEvent_def hasOwnProperty_inherited)

lemma addInstructionToEvent_keeps_inherited:
  "n \<noteq> ''hasOwnProperty'' \<Longrightarrow> businessLogicEvents this ''hasOwnProperty'' = None
     \<Longrightarrow> businessLogicEvents (snd (addInstructionToEvent instruction n this))
          ''hasOwnProperty'' = None"
  by (auto simp add: addInstructionToEvent_def initializeEvent_def hasOwnProperty_inherited
        split: option.splits)

section \<open>What registration keeps\<close>

lemma registry_inv_addInstructionToEvent:
  "registry_inv this \<Longrightarrow> registry_inv (snd (addInstructionToEvent instruction n this))"
  by (auto simp add: registry_inv_def addInstructionToEvent_def initializeEvent_def
        split: sum.splits option.splits prod.splits if_splits)








lemma registry_grows_instructions_at:
  "registry_grows s s' \<Longrightarrow> \<exists>more. instructions_at s' key = instructions_at s key @ more"
  by (cases "businessLogicEvents s key")
     (auto simp add: registry_grows_def registration_grows_def instructions_at_def
        split: option.splits dest!: spec [of _ key])

section \<open>The loop\<close>

text \<open>
  One round of the loop, whatever is put in the place of the rounds that follow: the
  position is past the end, or the instruction at the position was invoked and threw,
  applied, or declined.
\<close>

lemma round_cases:
  assumes "(if i < length (instructions_at this key)
      then
        (case invoke (instructions_at this key ! i) params w this of
           None \<Rightarrow> None
         | Some call \<Rightarrow>
             (case outcome call of
                Inl e \<Rightarrow>
                  Some \<lparr>completion = Inl e, invoked = calls @ [call],
                        world = left_world call, service = left_service call\<rparr>
              | Inr applied \<Rightarrow>
                  if applied
                  then Some \<lparr>completion = Inr True, invoked = calls @ [call],
                             world = left_world call, service = left_service call\<rparr>
                  else run key (Suc i) (left_parameters call) (left_world call)
                         (left_service call) (calls @ [call])))
      else Some \<lparr>completion = Inr True, invoked = calls, world = w, service = this\<rparr>)
     = Some f"
  obtains
    (finished) "\<not> i < length (instructions_at this key)"
      "f = \<lparr>completion = Inr True, invoked = calls, world = w, service = this\<rparr>"
  | (ended) call where "i < length (instructions_at this key)"
      "invoke (instructions_at this key ! i) params w this = Some call"
      "invoked f = calls @ [call]" "world f = left_world call" "service f = left_service call"
      "outcome call \<noteq> Inr False"
  | (declined) call where "i < length (instructions_at this key)"
      "invoke (instructions_at this key ! i) params w this = Some call"
      "outcome call = Inr False"
      "run key (Suc i) (left_parameters call) (left_world call) (left_service call)
         (calls @ [call]) = Some f"
  using assms by (auto split: if_splits option.splits sum.splits)

lemma run_instructions_preserves:
  assumes step: "\<And>instruction n s. P s \<Longrightarrow> P (snd (addInstructionToEvent instruction n s))"
    and run: "run_instructions key i params w this calls = Some f"
    and start: "P this"
  shows "P (service f)"
  using start
proof (induction rule: run_instructions.raw_induct [OF _ run])
  case (1 run key i params w this calls f)
  from 1(2) show ?case
  proof (cases rule: round_cases)
    case finished
    with "1.prems" show ?thesis by simp
  next
    case (ended call)
    from step ended(2) "1.prems" have "P (left_service call)" by (rule invoke_preserves)
    with ended show ?thesis by simp
  next
    case (declined call)
    from step declined(2) "1.prems" have "P (left_service call)" by (rule invoke_preserves)
    with declined(4) show ?thesis by (rule 1(1))
  qed
qed

text \<open>
  The log of a run says what the calls really did, and each call starts on what the
  call before it left.
\<close>

lemma run_instructions_linked:
  assumes run: "run_instructions key i params w this calls = Some f"
    and "\<forall>c \<in> set calls. as_called c" and "linked p0 w0 s0 calls params w this"
  shows "(\<forall>c \<in> set (invoked f). as_called c)
   \<and> (\<exists>p'. linked p0 w0 s0 (invoked f) p' (world f) (service f))"
  using assms(2-)
proof (induction rule: run_instructions.raw_induct [OF _ run])
  case (1 run key i params w this calls f)
  from 1(2) show ?case
  proof (cases rule: round_cases)
    case finished
    with "1.prems" show ?thesis by auto
  next
    case (ended call)
    have "\<forall>c \<in> set (calls @ [call]). as_called c"
      using "1.prems"(1) as_called_invoke [OF ended(2)] by simp
    moreover have "linked p0 w0 s0 (calls @ [call]) (left_parameters call) (left_world call)
        (left_service call)"
      using "1.prems"(2) invoke_Some(2-4) [OF ended(2)] by (simp add: linked_snoc)
    ultimately show ?thesis using ended(3-5) by auto
  next
    case (declined call)
    have "\<forall>c \<in> set (calls @ [call]). as_called c"
      using "1.prems"(1) as_called_invoke [OF declined(2)] by simp
    moreover have "linked p0 w0 s0 (calls @ [call]) (left_parameters call) (left_world call)
        (left_service call)"
      using "1.prems"(2) invoke_Some(2-4) [OF declined(2)] by (simp add: linked_snoc)
    ultimately show ?thesis by (rule 1(1) [OF declined(4)])
  qed
qed


text \<open>
  When every instruction under the fired name keeps to itself, the loop comes to an
  end, returns true and leaves the service as it is; it has called the instructions
  from position \<open>i\<close> on in their order, each once, up to and including the first one
  that returned true.
\<close>

lemma run_instructions_settled:
  assumes kept: "\<forall>instruction \<in> set (instructions_at this key). keeps_to_itself instruction"
  shows "\<exists>f new. run_instructions key i params w this calls = Some f
     \<and> completion f = Inr True \<and> service f = this \<and> invoked f = calls @ new
     \<and> map callee new = take (length new) (drop i (instructions_at this key))
     \<and> (\<forall>c \<in> set (butlast new). outcome c = Inr False)
     \<and> (length new < length (instructions_at this key) - i \<longrightarrow> outcome (last new) = Inr True)
     \<and> (i < length (instructions_at this key) \<longrightarrow> new \<noteq> [])"
proof (induction "length (instructions_at this key) - i" arbitrary: i params w calls)
  case 0
  then have "\<not> i < length (instructions_at this key)" by simp
  then have "run_instructions key i params w this calls
      = Some \<lparr>completion = Inr True, invoked = calls, world = w, service = this\<rparr>"
    by (subst run_instructions.simps) simp
  with \<open>\<not> i < length (instructions_at this key)\<close> show ?case by simp
next
  case (Suc k)
  let ?is = "instructions_at this key"
  from Suc.hyps(2) have less: "i < length ?is" by simp
  with kept have "keeps_to_itself (?is ! i)" by simp
  from perform_keeps_to_itself [OF this, of params w this]
  obtain applied p' w' where
    ended: "perform ((?is ! i) params w) this = Some (Inr applied, p', w', this)"
    by blast
  define call where "call =
    \<lparr>callee = ?is ! i, arguments = params, in_world = w, in_service = this,
     outcome = Inr applied :: error + bool, left_parameters = p', left_world = w',
     left_service = this\<rparr>"
  have invoked: "invoke (?is ! i) params w this = Some call"
    using ended by (simp add: invoke_def call_def)
  have sel: "callee call = ?is ! i" "outcome call = Inr applied" "left_parameters call = p'"
    "left_world call = w'" "left_service call = this"
    by (simp_all add: call_def)
  have first: "take (Suc 0) (drop i ?is) = [?is ! i]"
    using less by (simp add: take_Suc_conv_app_nth)
  show ?case
  proof (cases applied)
    case True
    have "run_instructions key i params w this calls
        = Some \<lparr>completion = Inr True, invoked = calls @ [call], world = w', service = this\<rparr>"
      using less invoked sel True by (subst run_instructions.simps) simp
    moreover have "map callee [call] = take (length [call]) (drop i ?is)"
      using first sel by simp
    moreover have "outcome (last [call]) = Inr True"
      using sel True by simp
    ultimately show ?thesis by (intro exI [of _ "[call]"] exI) auto
  next
    case False
    from Suc.hyps(2) have "k = length ?is - Suc i" by simp
    from Suc.hyps(1) [OF this, of p' w' "calls @ [call]"]
    obtain f new where run: "run_instructions key (Suc i) p' w' this (calls @ [call]) = Some f"
      and f: "completion f = Inr True" "service f = this" "invoked f = (calls @ [call]) @ new"
      and callees: "map callee new = take (length new) (drop (Suc i) ?is)"
      and declined: "\<forall>c \<in> set (butlast new). outcome c = Inr False"
      and stopped: "length new < length ?is - Suc i \<longrightarrow> outcome (last new) = Inr True"
      and more: "Suc i < length ?is \<longrightarrow> new \<noteq> []"
      by blast
    have "run_instructions key i params w this calls = Some f"
      using less invoked sel False run by (subst run_instructions.simps) simp
    moreover have "invoked f = calls @ (call # new)" using f(3) by simp
    moreover have "map callee (call # new) = take (length (call # new)) (drop i ?is)"
      using callees less sel by (simp add: Cons_nth_drop_Suc [symmetric])
    moreover have "\<forall>c \<in> set (butlast (call # new)). outcome c = Inr False"
      using declined sel False by auto
    moreover have "length (call # new) < length ?is - i \<longrightarrow> outcome (last (call # new)) = Inr True"
      using stopped more by (cases "new = []") auto
    ultimately show ?thesis using f(1,2) by (intro exI [of _ "call # new"] exI) auto
  qed
qed

text \<open>
  The loop need not end. When the instructions from position \<open>i\<close> on all are
  \<open>again key\<close>, each of them declines after it has put one more of its kind at the end
  of the list, and the position never reaches the end.
\<close>

lemma run_instructions_again:
  assumes run: "run_instructions key i params w this calls = Some f"
    and "key \<noteq> ''hasOwnProperty''" and "businessLogicEvents this ''hasOwnProperty'' = None"
    and "businessLogicEvents this key = Some registration"
    and "eventInstructions registration = Some instructions"
    and "i < length instructions"
    and "\<forall>j. i \<le> j \<and> j < length instructions \<longrightarrow> instructions ! j = again key"
  shows False
  using assms(2-)
proof (induction arbitrary: registration instructions
    rule: run_instructions.raw_induct [OF _ run])
  case (1 run key i params w this calls f)
  let ?this' = "this\<lparr>businessLogicEvents := (businessLogicEvents this)
      (key \<mapsto> registration\<lparr>eventInstructions := Some (instructions @ [again key])\<rparr>)\<rparr>"
  have at: "instructions_at this key = instructions"
    using "1.prems"(3,4) by (simp add: instructions_at_def)
  have callee: "instructions ! i = again key"
    using "1.prems"(5,6) by simp
  have "addInstructionToEvent (again key) key this = (Inr (), ?this')"
    using "1.prems"(2-4) by (rule addInstructionToEvent_again)
  then have "perform (again key params w) this = Some (Inr False, params, w, ?this')"
    by (subst again.code) (simp add: perform_Register perform_Done)
  then have invoked: "invoke (again key) params w this =
      Some \<lparr>callee = again key, arguments = params, in_world = w, in_service = this,
            outcome = Inr False, left_parameters = params, left_world = w,
            left_service = ?this'\<rparr>"
    by (simp add: invoke_def)
  from 1(2) show ?case
  proof (cases rule: round_cases)
    case finished
    with at "1.prems"(5) show ?thesis by simp
  next
    case (ended call)
    with at callee invoked show ?thesis by auto
  next
    case (declined call)
    with at callee invoked
    have next_round: "run key (Suc i) params w ?this' (calls @ [call]) = Some f"
      by auto
    have inherited: "businessLogicEvents ?this' ''hasOwnProperty'' = None"
      using "1.prems"(1,2) by simp
    have stored: "businessLogicEvents ?this' key =
        Some (registration\<lparr>eventInstructions := Some (instructions @ [again key])\<rparr>)"
      by simp
    have list: "eventInstructions
        (registration\<lparr>eventInstructions := Some (instructions @ [again key])\<rparr>)
        = Some (instructions @ [again key])"
      by simp
    have inside: "Suc i < length (instructions @ [again key])"
      using "1.prems"(5) by simp
    have all: "\<forall>j. Suc i \<le> j \<and> j < length (instructions @ [again key])
        \<longrightarrow> (instructions @ [again key]) ! j = again key"
      using "1.prems"(6) by (auto simp add: nth_append)
    from 1(1) [OF next_round "1.prems"(1) inherited stored list inside all]
    show ?thesis .
  qed
qed

section \<open>Firing\<close>

lemma doEvent_preserves:
  assumes step: "\<And>instruction n s. P s \<Longrightarrow> P (snd (addInstructionToEvent instruction n s))"
    and fired: "doEvent this event w = Some f"
    and start: "P this"
  shows "P (service f)"
proof (cases "\<exists>calls. f = \<lparr>completion = completion f, invoked = calls, world = w, service = this\<rparr>")
  case True
  then obtain calls where "f = \<lparr>completion = completion f, invoked = calls, world = w, service = this\<rparr>"
    by blast
  then have "service f = this" by (cases f) simp
  with start show ?thesis by simp
next
  case False
  with fired have "run_instructions (eventName event) 0 (eventParameters event) w this [] = Some f"
    by (auto simp add: doEvent_def split: sum.splits option.splits if_splits)
  with step show ?thesis using start by (rule run_instructions_preserves)
qed



lemma doEvent_unregistered:
  "businessLogicEvents this ''hasOwnProperty'' = None
     \<Longrightarrow> businessLogicEvents this (eventName event) = None
     \<Longrightarrow> doEvent this event w
          = Some \<lparr>completion = Inr False, invoked = [], world = w, service = this\<rparr>"
  by (simp add: doEvent_def hasOwnProperty_inherited)

lemma doEvent_registered:
  assumes "businessLogicEvents this ''hasOwnProperty'' = None"
    and "businessLogicEvents this (eventName event) = Some registration"
    and "eventInstructions registration = Some instructions"
    and "instructions \<noteq> []"
  shows "doEvent this event w
           = run_instructions (eventName event) 0 (eventParameters event) w this []"
  using assms by (simp add: doEvent_def hasOwnProperty_inherited)

text \<open>
  As long as no event is registered under the name \<^verbatim>\<open>hasOwnProperty\<close> and the
  instructions of the fired event keep to themselves, a firing returns true after it
  has called the instructions in registration order up to and including the first one
  that returned true.
\<close>

lemma doEvent_prefix:
  assumes "businessLogicEvents this ''hasOwnProperty'' = None"
    and "businessLogicEvents this (eventName event) = Some registration"
    and "eventInstructions registration = Some instructions"
    and "instructions \<noteq> []"
    and "\<forall>instruction \<in> set instructions. keeps_to_itself instruction"
  shows "\<exists>f. doEvent this event w = Some f
     \<and> completion f = Inr True \<and> service f = this \<and> invoked f \<noteq> []
     \<and> map callee (invoked f) = take (length (invoked f)) instructions
     \<and> (\<forall>c \<in> set (butlast (invoked f)). outcome c = Inr False)
     \<and> (length (invoked f) < length instructions \<longrightarrow> outcome (last (invoked f)) = Inr True)"
proof -
  have at: "instructions_at this (eventName event) = instructions"
    using assms(2,3) by (simp add: instructions_at_def)
  with assms(5)
  have "\<forall>instruction \<in> set (instructions_at this (eventName event)). keeps_to_itself instruction"
    by simp
  from run_instructions_settled [OF this, of 0 "eventParameters event" w "[]"] at assms(4)
  show ?thesis by (auto simp add: doEvent_registered [OF assms(1-4)])
qed

text \<open>
  A run on three instructions registered in the order \<open>A\<close>, \<open>B\<close>, \<open>C\<close>, of which
  \<open>A\<close> declines and \<open>B\<close> applies: \<open>A\<close> and \<open>B\<close> are called, \<open>C\<close> is not.
\<close>

lemma doEvent_sample_run:
  "map_option (\<lambda>f. (completion f, map callee (invoked f), world f))
     (doEvent
        (snd (addInstructionToEvent (declines ''C'') ''routeX''
           (snd (addInstructionToEvent (applies ''B'') ''routeX''
              (snd (addInstructionToEvent (declines ''A'') ''routeX'' constructor))))))
        (fire ''routeX'' (Some [3])) [])
   = Some (Inr True, [declines ''A'', applies ''B''],
           [(''A'', Some [3]), (''B'', Some [3])])"
  by (simp add: doEvent_def run_instructions.simps instructions_at_def invoke_def
        perform_Done perform_Register addInstructionToEvent_def initializeEvent_def
        hasOwnProperty_def constructor_def fire_def declines_def applies_def)

text \<open>
  A firing that never returns: the only instruction of \<^verbatim>\<open>routeX\<close> registers itself
  under \<^verbatim>\<open>routeX\<close> and declines.
\<close>

lemma doEvent_never_returns:
  "doEvent (snd (addInstructionToEvent (again ''routeX'') ''routeX'' constructor))
     (fire ''routeX'' params) w = None"
proof (rule ccontr)
  let ?svc = "snd (addInstructionToEvent (again ''routeX'') ''routeX'' constructor)"
  assume "doEvent ?svc (fire ''routeX'' params) w \<noteq> None"
  then obtain f where "doEvent ?svc (fire ''routeX'' params) w = Some f" by blast
  then have "run_instructions ''routeX'' 0 params w ?svc [] = Some f"
    by (simp add: doEvent_def addInstructionToEvent_def initializeEvent_def
          hasOwnProperty_def constructor_def fire_def)
  then show False
    by (rule run_instructions_again
          [where registration = "\<lparr>eventName = ''routeX'', eventParameters = None,
             eventInstructions = Some [again ''routeX'']\<rparr>"
           and instructions = "[again ''routeX'']"])
       (simp_all add: addInstructionToEvent_def initializeEvent_def hasOwnProperty_def
          constructor_def)
qed

text \<open>
  Where the two firing methods do agree: on a name that is not registered, and on the
  one name that is the key the older build reads.
\<close>

lemma executeInstructionsForEvent_unregistered:
  "businessLogicEvents this (eventName event) = None
     \<Longrightarrow> executeInstructionsForEvent this event w = doEvent this event w"
  by (simp add: executeInstructionsForEvent_def doEvent_def hasOwnProperty_def
        split: option.splits)

lemma executeInstructionsForEvent_same_key:
  "eventName event = toPropertyKey event
     \<Longrightarrow> executeInstructionsForEvent this event w = doEvent this event w"
  by (simp add: executeInstructionsForEvent_def doEvent_def
        split: sum.splits option.splits prod.splits)

text \<open>
  A firing either ends before the loop, with nothing invoked and world and service as
  they were, or it is the loop from position 0 on.
\<close>

lemma doEvent_cases:
  assumes "doEvent this event w = Some f"
  shows "(invoked f = [] \<and> world f = w \<and> service f = this)
     \<or> run_instructions (eventName event) 0 (eventParameters event) w this [] = Some f"
  using assms by (auto simp add: doEvent_def split: sum.splits option.splits if_splits)

section \<open>Properties of firing\<close>

text \<open>
  C1. doEvent on a registered name with a non-empty list invokes exactly the prefix of
  the list up to and including the first instruction that returns true, each once and
  in registration order. \<open>doEvent_prefix\<close> shows this for every service in which no
  event is registered under \<^verbatim>\<open>hasOwnProperty\<close>, for instructions that keep to
  themselves. It fails in a service with such an event: after
  \<^verbatim>\<open>addInstructionToEvent(instruction, 'hasOwnProperty')\<close> on a new service, the event
  \<^verbatim>\<open>hasOwnProperty\<close> is registered with the list \<open>[instruction]\<close>, and firing it invokes
  nothing and raises a TypeError.
\<close>

theorem doEvent_skips_event_named_hasOwnProperty:
  "map_option eventInstructions
     (businessLogicEvents (snd (addInstructionToEvent instruction ''hasOwnProperty'' constructor))
        ''hasOwnProperty'') = Some (Some [instruction])
   \<and> map_option invoked
       (doEvent (snd (addInstructionToEvent instruction ''hasOwnProperty'' constructor))
          (fire ''hasOwnProperty'' params) w) = Some []
   \<and> map_option completion
       (doEvent (snd (addInstructionToEvent instruction ''hasOwnProperty'' constructor))
          (fire ''hasOwnProperty'' params) w) = Some (Inl TypeError)"
  by (simp add: doEvent_def addInstructionToEvent_def initializeEvent_def hasOwnProperty_def
        constructor_def fire_def)

text \<open>
  C2. doEvent on a name that was never registered returns false and invokes nothing.
  \<open>doEvent_unregistered\<close> shows this for every service in which no event is registered
  under \<^verbatim>\<open>hasOwnProperty\<close>. It fails in the remaining ones: after
  \<^verbatim>\<open>addInstructionToEvent(instruction, 'hasOwnProperty')\<close> on a new service, firing the
  unregistered name \<^verbatim>\<open>routeX\<close> does not return false, it raises a TypeError.
\<close>

theorem doEvent_unregistered_raises_after_hasOwnProperty:
  "businessLogicEvents (snd (addInstructionToEvent instruction ''hasOwnProperty'' constructor))
     ''routeX'' = None
   \<and> map_option completion
       (doEvent (snd (addInstructionToEvent instruction ''hasOwnProperty'' constructor))
          (fire ''routeX'' params) w) = Some (Inl TypeError)"
  by (simp add: doEvent_def addInstructionToEvent_def initializeEvent_def hasOwnProperty_def
        constructor_def fire_def)



text \<open>
  C4. doEvent on a registered name with a non-empty list returns true, whether or not
  an instruction applied. \<open>doEvent_prefix\<close> shows this for every service in which no
  event is registered under \<^verbatim>\<open>hasOwnProperty\<close>, for instructions that keep to
  themselves. It fails in a service with such an event: register \<open>first\<close> under
  \<^verbatim>\<open>routeX\<close>, then \<open>second\<close> under \<^verbatim>\<open>hasOwnProperty\<close>; \<^verbatim>\<open>routeX\<close> still holds the list
  \<open>[first]\<close>, and firing it does not return true, it raises a TypeError.
\<close>

theorem doEvent_registered_raises_after_hasOwnProperty:
  "map_option eventInstructions
     (businessLogicEvents
        (snd (addInstructionToEvent second ''hasOwnProperty''
               (snd (addInstructionToEvent first ''routeX'' constructor))))
        ''routeX'') = Some (Some [first])
   \<and> map_option completion
       (doEvent
          (snd (addInstructionToEvent second ''hasOwnProperty''
                 (snd (addInstructionToEvent first ''routeX'' constructor))))
          (fire ''routeX'' params) w) = Some (Inl TypeError)"
  by (simp add: doEvent_def addInstructionToEvent_def initializeEvent_def hasOwnProperty_def
        constructor_def fire_def)

text \<open>
  C6, as stated: every instruction invoked during a firing receives exactly the
  parameters supplied to that firing. Line 255 hands every instruction the array
  \<^verbatim>\<open>event.eventParameters\<close> itself, so an instruction that pushes onto it changes what
  the next one receives: with \<open>pushes 99\<close> registered before \<open>applies\<close> and the
  parameters \<open>[20]\<close>, the second instruction is called on \<open>[20, 99]\<close>, as its own log
  entry in the world says.
\<close>

theorem doEvent_parameters_changed_between_calls:
  "map_option (map arguments \<circ> invoked)
     (doEvent
        (snd (addInstructionToEvent (applies ''B'') ''routeX''
               (snd (addInstructionToEvent (pushes 99 ''A'') ''routeX'' constructor))))
        (fire ''routeX'' (Some [20])) [])
   = Some [Some [20], Some [20, 99]]
   \<and> map_option world
       (doEvent
          (snd (addInstructionToEvent (applies ''B'') ''routeX''
                 (snd (addInstructionToEvent (pushes 99 ''A'') ''routeX'' constructor))))
          (fire ''routeX'' (Some [20])) [])
     = Some [(''A'', Some [20]), (''B'', Some [20, 99])]"
  by (simp add: doEvent_def run_instructions.simps instructions_at_def invoke_def
        perform_Done perform_Register addInstructionToEvent_def initializeEvent_def
        hasOwnProperty_def constructor_def fire_def pushes_def applies_def)

text \<open>
  C6, amended: during a firing every invoked instruction is called on the current value
  of \<^verbatim>\<open>event.eventParameters\<close>: the first one on the parameters supplied to the firing,
  every later one on the parameters as the instruction invoked before it left them.
  doEvent itself never changes them, so when no invoked instruction changes them, every
  invoked instruction receives exactly the parameters supplied to the firing. The log
  this is read from says what the calls really did (\<open>as_called\<close>).
\<close>

theorem doEvent_hands_on_parameters:
  "doEvent this event w = Some f \<Longrightarrow>
     (\<forall>c \<in> set (invoked f). as_called c)
     \<and> (\<exists>p'. linked (eventParameters event) w this (invoked f) p' (world f) (service f))
     \<and> ((\<forall>c \<in> set (invoked f). left_parameters c = arguments c)
          \<longrightarrow> (\<forall>c \<in> set (invoked f). arguments c = eventParameters event))"
proof -
  assume fired: "doEvent this event w = Some f"
  have log: "(\<forall>c \<in> set (invoked f). as_called c)
     \<and> (\<exists>p'. linked (eventParameters event) w this (invoked f) p' (world f) (service f))"
    using doEvent_cases [OF fired]
  proof
    assume "invoked f = [] \<and> world f = w \<and> service f = this"
    then show ?thesis by simp
  next
    assume "run_instructions (eventName event) 0 (eventParameters event) w this [] = Some f"
    then show ?thesis by (rule run_instructions_linked) simp_all
  qed
  then obtain p' where
    "linked (eventParameters event) w this (invoked f) p' (world f) (service f)"
    by blast
  then have "(\<forall>c \<in> set (invoked f). left_parameters c = arguments c)
          \<longrightarrow> (\<forall>c \<in> set (invoked f). arguments c = eventParameters event)"
    by (blast dest: linked_same_parameters)
  with log show ?thesis by blast
qed

theorem doEvent_hands_on_parameters_witness:
  "map_option (map arguments \<circ> invoked)
     (doEvent
        (snd (addInstructionToEvent (applies ''B'') ''routeX''
               (snd (addInstructionToEvent (declines ''A'') ''routeX'' constructor))))
        (fire ''routeX'' (Some [20])) [])
   = Some [Some [20], Some [20]]
   \<and> map_option world
       (doEvent
          (snd (addInstructionToEvent (applies ''B'') ''routeX''
                 (snd (addInstructionToEvent (declines ''A'') ''routeX'' constructor))))
          (fire ''routeX'' (Some [20])) [])
     = Some [(''A'', Some [20]), (''B'', Some [20])]"
proof -
  let ?svc =
    "snd (addInstructionToEvent (applies ''B'') ''routeX''
           (snd (addInstructionToEvent (declines ''A'') ''routeX'' constructor)))"
  let ?event =
    "fire ''routeX'' (Some [20]) :: (nat, (string \<times> nat list option) list) BusinessLogicEvent"
  obtain f where fired: "doEvent ?svc ?event [] = Some f"
    and two: "length (invoked f) = 2"
    and kept: "\<forall>c \<in> set (invoked f). left_parameters c = arguments c"
    and log: "world f = [(''A'', Some [20]), (''B'', Some [20])]"
    by (simp add: doEvent_def run_instructions.simps instructions_at_def invoke_def
          perform_Done perform_Register addInstructionToEvent_def initializeEvent_def
          hasOwnProperty_def constructor_def fire_def declines_def applies_def)
  with doEvent_hands_on_parameters [OF fired]
  have "\<forall>c \<in> set (invoked f). arguments c = Some [20]"
    by (simp add: fire_def)
  moreover from two obtain a b where "invoked f = [a, b]"
    by (auto simp add: length_Suc_conv numeral_2_eq_2)
  ultimately have "map arguments (invoked f) = [Some [20], Some [20]]" by simp
  with fired log show ?thesis by simp
qed




section \<open>Properties of registration\<close>

text \<open>
  C5. addInstructionToEvent creates a missing registration, appends the instruction to
  the end of the list, returns nothing and raises no error when an event name is used
  again. \<open>addInstructionToEvent_first\<close> and \<open>addInstructionToEvent_again\<close> show this
  for every service in which no event is registered under \<^verbatim>\<open>hasOwnProperty\<close>. It fails
  for that name: the first registration under \<^verbatim>\<open>hasOwnProperty\<close> returns normally, the
  second one raises a TypeError and appends nothing.
\<close>

theorem addInstructionToEvent_hasOwnProperty_twice_raises:
  "fst (addInstructionToEvent first ''hasOwnProperty'' constructor) = Inr ()
   \<and> addInstructionToEvent second ''hasOwnProperty''
       (snd (addInstructionToEvent first ''hasOwnProperty'' constructor))
     = (Inl TypeError, snd (addInstructionToEvent first ''hasOwnProperty'' constructor))
   \<and> map_option eventInstructions
       (businessLogicEvents
          (snd (addInstructionToEvent second ''hasOwnProperty''
                 (snd (addInstructionToEvent first ''hasOwnProperty'' constructor))))
          ''hasOwnProperty'') = Some (Some [first])"
  by (simp add: addInstructionToEvent_def initializeEvent_def hasOwnProperty_def
        constructor_def)

text \<open>
  C9. Every stored registration sits under its own name and has a defined instruction
  list: this holds of the new service and is kept by every call of
  addInstructionToEvent and of doEvent, however the call completes and whatever the
  invoked instructions register while it runs.
\<close>

theorem registry_inv_preserved:
  "registry_inv (constructor :: ('a, 'w) BusinessLogicCentralService)
   \<and> (registry_inv (this :: ('a, 'w) BusinessLogicCentralService)
        \<longrightarrow> registry_inv (snd (addInstructionToEvent instruction n this)))
   \<and> (registry_inv this
        \<longrightarrow> (\<forall>f. doEvent this event w = Some f \<longrightarrow> registry_inv (service f)))"
proof (intro conjI impI allI)
  show "registry_inv (constructor :: ('a, 'w) BusinessLogicCentralService)"
    by (simp add: registry_inv_def constructor_def)
next
  assume "registry_inv this"
  then show "registry_inv (snd (addInstructionToEvent instruction n this))"
    by (rule registry_inv_addInstructionToEvent)
next
  fix f
  assume kept: "registry_inv this" and fired: "doEvent this event w = Some f"
  from doEvent_preserves
    [where P = registry_inv, OF registry_inv_addInstructionToEvent fired kept]
  show "registry_inv (service f)" .
qed

theorem registry_inv_preserved_witness:
  "registry_inv
     (constructor :: (nat, (string \<times> nat list option) list) BusinessLogicCentralService)
   \<and> registry_inv (snd (addInstructionToEvent (declines ''A'') ''routeX'' constructor))
   \<and> map_option (registry_inv \<circ> service)
       (doEvent (snd (addInstructionToEvent (declines ''A'') ''routeX'' constructor))
          (fire ''routeX'' None) []) = Some True
   \<and> map_option eventName
       (businessLogicEvents (snd (addInstructionToEvent (declines ''A'') ''routeX'' constructor))
          ''routeX'') = Some ''routeX''"
proof -
  let ?added = "snd (addInstructionToEvent (declines ''A'') ''routeX'' constructor)"
  note at_start =
    registry_inv_preserved
      [of constructor "declines ''A''" "''routeX''" "fire ''routeX'' None" "[]"]
  note at_added =
    registry_inv_preserved
      [of ?added "declines ''A''" "''routeX''" "fire ''routeX'' None" "[]"]
  from at_start
  have start:
    "registry_inv
       (constructor :: (nat, (string \<times> nat list option) list) BusinessLogicCentralService)"
    by simp
  with at_start have added: "registry_inv ?added" by simp
  obtain f where fired: "doEvent ?added (fire ''routeX'' None) [] = Some f"
    by (simp add: doEvent_def run_instructions.simps instructions_at_def invoke_def
          perform_Done perform_Register addInstructionToEvent_def initializeEvent_def
          hasOwnProperty_def constructor_def fire_def declines_def)
  with at_added added have "registry_inv (service f)" by simp
  with fired have after:
    "map_option (registry_inv \<circ> service) (doEvent ?added (fire ''routeX'' None) []) = Some True"
    by simp
  have stored: "map_option eventName (businessLogicEvents ?added ''routeX'') = Some ''routeX''"
    by (simp add: addInstructionToEvent_def initializeEvent_def hasOwnProperty_def
          constructor_def)
  from start added after stored show ?thesis by simp
qed

text \<open>
  C10. addInstructionToEvent for the name \<open>n\<close> changes no registration under another
  name \<open>m\<close>.
\<close>

theorem addInstructionToEvent_frame:
  "m \<noteq> n \<Longrightarrow>
     businessLogicEvents (snd (addInstructionToEvent instruction n this)) m
       = businessLogicEvents this m"
  by (auto simp add: addInstructionToEvent_def initializeEvent_def
        split: sum.splits option.splits prod.splits if_splits)

theorem addInstructionToEvent_frame_witness:
  "''routeX'' \<noteq> ''routeY''
   \<and> map_option eventInstructions
       (businessLogicEvents
          (snd (addInstructionToEvent (applies ''B'') ''routeY''
                 (snd (addInstructionToEvent (declines ''A'') ''routeX'' constructor))))
          ''routeX'') = Some (Some [declines ''A''])"
proof -
  have differ: "''routeX'' \<noteq> ''routeY''" by simp
  have before:
    "map_option eventInstructions
       (businessLogicEvents (snd (addInstructionToEvent (declines ''A'') ''routeX'' constructor))
          ''routeX'') = Some (Some [declines ''A''])"
    by (simp add: addInstructionToEvent_def initializeEvent_def hasOwnProperty_def
          constructor_def)
  show ?thesis
    using differ before
      addInstructionToEvent_frame [OF differ, of "applies ''B''"
        "snd (addInstructionToEvent (declines ''A'') ''routeX'' constructor)"]
    by simp
qed

section \<open>The older build\<close>

text \<open>
  C7. executeInstructionsForEvent of the older build returns what doEvent returns and
  invokes the same instructions. It does not: with a plain instruction registered under
  \<^verbatim>\<open>routeX\<close> on a new service, doEvent invokes it and returns true, while
  executeInstructionsForEvent looks for a registration under the key
  \<^verbatim>\<open>[object Object]\<close>, finds none, and raises a TypeError before it invokes anything.
\<close>

theorem executeInstructionsForEvent_raises_where_doEvent_runs:
  "map_option completion
     (doEvent (snd (addInstructionToEvent (plain g) ''routeX'' constructor))
        (fire ''routeX'' params) w) = Some (Inr True)
   \<and> map_option (map callee \<circ> invoked)
       (doEvent (snd (addInstructionToEvent (plain g) ''routeX'' constructor))
          (fire ''routeX'' params) w) = Some [plain g]
   \<and> map_option completion
       (executeInstructionsForEvent
          (snd (addInstructionToEvent (plain g) ''routeX'' constructor))
          (fire ''routeX'' params) w) = Some (Inl TypeError)
   \<and> map_option invoked
       (executeInstructionsForEvent
          (snd (addInstructionToEvent (plain g) ''routeX'' constructor))
          (fire ''routeX'' params) w) = Some []"
  by (simp add: doEvent_def executeInstructionsForEvent_def run_instructions.simps
        instructions_at_def invoke_def perform_Done perform_Register plain_def Let_def
        addInstructionToEvent_def initializeEvent_def hasOwnProperty_def toPropertyKey_def
        constructor_def fire_def
        split: prod.splits)

end
